theory Spec2Isabelle
  imports Main "HOL-Library.AList" "HOL-Library.Word"
begin

section \<open>Data model\<close>

text \<open>
  The development embeds the handlers of \<^verbatim>\<open>package api\<close> (the second part of
  \<^verbatim>\<open>src/internal/mappers/message.go\<close>): the websocket subscription handler
  \<^verbatim>\<open>handleSubscribeToRoom\<close>, the fan-out \<^verbatim>\<open>notifyClients\<close>, and the two HTTP handlers
  \<^verbatim>\<open>handleCreateRoomMessage\<close> and \<^verbatim>\<open>handleRemoveReactionFromMessage\<close>.

  Calls that leave the process (the Store \<^verbatim>\<open>h.q\<close>, the websocket upgrader, the response
  writer, a connection's \<^verbatim>\<open>WriteJSON\<close>) are modelled by their outcome, a field of the request
  record or a function argument, and by an event appended to a trace, so that every
  outcome the Go code branches on is a branch of the model.
\<close>

text \<open>A \<^verbatim>\<open>uuid.UUID\<close>, represented by its canonical text; \<^verbatim>\<open>String()\<close> reads it.\<close>

datatype uuid = UUID string

fun uuid_String :: "uuid \<Rightarrow> string" where
  "uuid_String (UUID s) = s"

text \<open>A \<^verbatim>\<open>*websocket.Conn\<close>: only the identity of the pointer matters to the registry.\<close>

type_synonym conn = nat

text \<open>
  A \<^verbatim>\<open>context.Context\<close>: the context of an inbound request, or the child made by
  \<^verbatim>\<open>context.WithCancel(parent)\<close>. A \<^verbatim>\<open>context.CancelFunc\<close> is the capability to cancel one
  context.
\<close>

datatype ctx = RequestCtx nat | WithCancel ctx nat

datatype cancel_func = CancelFunc ctx

text \<open>A child context is done once it was cancelled itself or once its parent is done.\<close>

fun ctx_done :: "ctx set \<Rightarrow> ctx \<Rightarrow> bool" where
  "ctx_done C (RequestCtx n) = (RequestCtx n \<in> C)"
| "ctx_done C (WithCancel p n) = (WithCancel p n \<in> C \<or> ctx_done C p)"

text \<open>
  The error a Store call returns, as far as the handlers look at it:
  \<^verbatim>\<open>errors.Is(err, pgx.ErrNoRows)\<close> or not.
\<close>

datatype store_error = ErrNoRows | ErrOther

datatype panic = AssignToNilMap

subsection \<open>Messages and their JSON form\<close>

datatype json = JString string | JNumber int | JObject "(string \<times> json) list"

definition MessageKindMessageCreated :: string where
  "MessageKindMessageCreated = ''message_created''"

record MessageMessageCreated =
  mc_ID :: string
  mc_Message :: string

text \<open>
  The field \<^verbatim>\<open>Value any\<close> of \<^verbatim>\<open>Message\<close>; the only value the program stores there is a
  \<^verbatim>\<open>MessageMessageCreated\<close>.
\<close>

datatype any_value = AnyMessageCreated MessageMessageCreated

record Message =
  Kind :: string
  Value :: any_value
  RoomID :: string

text \<open>
  What \<^verbatim>\<open>encoding/json\<close> makes of the two structs by their tags: fields in declaration
  order under their tag names, and the field tagged \<^verbatim>\<open>json:"-"\<close> left out.
\<close>

definition marshal_MessageMessageCreated :: "MessageMessageCreated \<Rightarrow> json" where
  "marshal_MessageMessageCreated v =
     JObject [(''id'', JString (mc_ID v)), (''message'', JString (mc_Message v))]"

fun marshal_any :: "any_value \<Rightarrow> json" where
  "marshal_any (AnyMessageCreated v) = marshal_MessageMessageCreated v"

definition marshal_Message :: "Message \<Rightarrow> json" where
  "marshal_Message msg =
     JObject [(''kind'', JString (Kind msg)), (''value'', marshal_any (Value msg))]"

fun json_keys :: "json \<Rightarrow> string list" where
  "json_keys (JObject fs) = map fst fs"
| "json_keys _ = []"


subsection \<open>Observable events\<close>

datatype event =
    StoreGetRoom uuid
  | StoreInsertMessage uuid string
  | StoreGetMessage uuid
  | StoreRemoveReactionFromMessage uuid
  | Upgrade bool
  | HttpError string nat
  | SetHeader string string
  | WriteHeader nat
  | Write json bool
  | LogInfo string
  | LogWarn string
  | LogError string
  | Subscribed string conn cancel_func
  | Unsubscribed string conn
  | ConnClose conn
  | WriteJSON conn json bool
  | CancelCalled cancel_func
  | GoNotifyClients Message
  | Panicked panic

section \<open>The registry: \<^verbatim>\<open>subscribers map[string]map[*websocket.Conn]context.CancelFunc\<close>\<close>

text \<open>
  Both maps are association lists; the order of a list stands for the order in which a
  \<^verbatim>\<open>range\<close> over the Go map happens to visit it, which Go leaves open, so every
  statement below is made for all lists. Indexing the outer map at a missing key gives
  the nil map, here \<open>None\<close>.
\<close>

type_synonym conns = "(conn \<times> cancel_func) list"
type_synonym registry = "(string \<times> conns) list"

text \<open>\<^verbatim>\<open>m[c] = cancel\<close>: panics on the nil map.\<close>

fun map_assign :: "conns option \<Rightarrow> conn \<Rightarrow> cancel_func \<Rightarrow> panic + conns" where
  "map_assign None c cancel = Inl AssignToNilMap"
| "map_assign (Some m) c cancel = Inr (AList.update c cancel m)"

text \<open>\<^verbatim>\<open>delete(m, c)\<close>: does nothing on the nil map or on a missing key.\<close>

fun map_delete :: "conns option \<Rightarrow> conn \<Rightarrow> conns option" where
  "map_delete None c = None"
| "map_delete (Some m) c = Some (AList.delete c m)"

text \<open>
  Lines 139 to 145 of \<^verbatim>\<open>handleSubscribeToRoom\<close>, between \<^verbatim>\<open>Lock\<close> and \<^verbatim>\<open>Unlock\<close>: make the
  inner map if the room has none, then store the cancel function under the connection.
  The inner map is shared by reference in Go; here the changed inner map is stored back.
\<close>

definition subscribe_locked ::
  "registry \<Rightarrow> string \<Rightarrow> conn \<Rightarrow> cancel_func \<Rightarrow> panic + registry" where
  "subscribe_locked subs room c cancel =
     (let subs1 = (if map_of subs room = None then AList.update room [] subs else subs)
      in case map_assign (map_of subs1 room) c cancel of
           Inl p \<Rightarrow> Inl p
         | Inr m \<Rightarrow> Inr (AList.update room m subs1))"

text \<open>Lines 150 to 154: \<^verbatim>\<open>delete(h.subscribers[roomId.String()], c)\<close> under the lock.\<close>

definition unsubscribe_locked :: "registry \<Rightarrow> string \<Rightarrow> conn \<Rightarrow> registry" where
  "unsubscribe_locked subs room c =
     (case map_delete (map_of subs room) c of
        None \<Rightarrow> subs
      | Some m \<Rightarrow> AList.update room m subs)"

section \<open>The process state\<close>

datatype phase = Registered | Closed

text \<open>
  A goroutine running \<^verbatim>\<open>handleSubscribeToRoom\<close> that has registered: its room key, the
  context it waits on, and whether it still waits at \<^verbatim>\<open><-ctx.Done()\<close> or has run its
  cleanup. Sessions are keyed by their connection.
\<close>

record session =
  s_room :: string
  s_ctx :: ctx
  s_phase :: phase

record system =
  subscribers :: registry
  cancelled :: "ctx set"
  sessions :: "conn \<rightharpoonup> session"
  next_conn :: nat
  trace :: "event list"

text \<open>\<^verbatim>\<open>NewHandler\<close>: an empty registry; nothing has happened yet.\<close>

definition NewHandler :: system where
  "NewHandler = \<lparr>subscribers = [], cancelled = {}, sessions = Map.empty,
     next_conn = 0, trace = []\<rparr>"

definition emit :: "event list \<Rightarrow> system \<Rightarrow> system" where
  "emit evs st = st\<lparr>trace := trace st @ evs\<rparr>"

section \<open>\<^verbatim>\<open>handleSubscribeToRoom\<close>\<close>

text \<open>
  One request to \<^verbatim>\<open>GET /subscribe/{room_id}\<close>: what \<^verbatim>\<open>utils.ParseUUIDParam\<close> returns
  (\<open>None\<close> for an error), what \<^verbatim>\<open>h.q.GetRoom\<close> returns (\<open>None\<close> for no error), whether
  \<^verbatim>\<open>h.upgrader.Upgrade\<close> succeeds, and the request's context.
\<close>

record sub_request =
  sr_room_id :: "uuid option"
  sr_GetRoom :: "store_error option"
  sr_Upgrade :: bool
  sr_ctx :: nat

text \<open>
  The handler up to \<^verbatim>\<open><-ctx.Done()\<close> (lines 110 to 148). The connection \<^verbatim>\<open>Upgrade\<close> returns
  is a new object, \<open>next_conn\<close>. A panic would be caught by \<^verbatim>\<open>middleware.Recoverer\<close>
  after the deferred \<^verbatim>\<open>c.Close()\<close>.
\<close>

definition handleSubscribeToRoom_enter :: "sub_request \<Rightarrow> system \<Rightarrow> system" where
  "handleSubscribeToRoom_enter rq st =
     (case sr_room_id rq of
        None \<Rightarrow> emit [HttpError ''invalid room id'' 400] st
      | Some roomId \<Rightarrow>
          (case sr_GetRoom rq of
             Some ErrNoRows \<Rightarrow>
               emit [StoreGetRoom roomId, HttpError ''room not found'' 404] st
           | Some ErrOther \<Rightarrow>
               emit [StoreGetRoom roomId, HttpError ''something went wrong'' 500] st
           | None \<Rightarrow>
               (if \<not> sr_Upgrade rq then
                  emit [StoreGetRoom roomId, Upgrade False,
                        LogWarn ''failed to upgrade connection'',
                        HttpError ''failed to upgrade connection'' 400] st
                else
                  (let c = next_conn st;
                       cx = WithCancel (RequestCtx (sr_ctx rq)) c;
                       cancel = CancelFunc cx;
                       st1 = emit [StoreGetRoom roomId, Upgrade True] (st\<lparr>next_conn := Suc c\<rparr>)
                   in case subscribe_locked (subscribers st1) (uuid_String roomId) c cancel of
                        Inl p \<Rightarrow> emit [Panicked p, ConnClose c] st1
                      | Inr subs \<Rightarrow>
                          emit [Subscribed (uuid_String roomId) c cancel,
                                LogInfo ''new subscriber connected'']
                            (st1\<lparr>subscribers := subs,
                                 sessions := (sessions st1)(c \<mapsto>
                                   \<lparr>s_room = uuid_String roomId, s_ctx = cx,
                                    s_phase = Registered\<rparr>)\<rparr>)))))"

text \<open>
  The rest of the handler (lines 148 to 155 and the deferred \<^verbatim>\<open>c.Close()\<close>), which runs
  once the session's context is done; until then the goroutine stays blocked.
\<close>

definition handleSubscribeToRoom_exit :: "conn \<Rightarrow> system \<Rightarrow> system" where
  "handleSubscribeToRoom_exit c st =
     (case sessions st c of
        None \<Rightarrow> st
      | Some s \<Rightarrow>
          if s_phase s = Registered \<and> ctx_done (cancelled st) (s_ctx s) then
            emit [Unsubscribed (s_room s) c, ConnClose c]
              (st\<lparr>subscribers := unsubscribe_locked (subscribers st) (s_room s) c,
                  sessions := (sessions st)(c \<mapsto> s\<lparr>s_phase := Closed\<rparr>)\<rparr>)
          else st)"

section \<open>\<^verbatim>\<open>notifyClients\<close>\<close>

text \<open>Calling a \<^verbatim>\<open>context.CancelFunc\<close>: marks its context cancelled; calling it again changes nothing.\<close>

fun call_cancel :: "cancel_func \<Rightarrow> system \<Rightarrow> system" where
  "call_cancel (CancelFunc cx) st =
     emit [CancelCalled (CancelFunc cx)] (st\<lparr>cancelled := insert cx (cancelled st)\<rparr>)"

text \<open>
  The loop of lines 180 to 186 over the room's connections; \<open>wr conn\<close> tells whether
  \<^verbatim>\<open>conn.WriteJSON(msg)\<close> succeeds.
\<close>

fun deliver :: "json \<Rightarrow> (conn \<Rightarrow> bool) \<Rightarrow> conns \<Rightarrow> system \<Rightarrow> system" where
  "deliver j wr [] st = st"
| "deliver j wr ((c, cancel) # rest) st =
     (if wr c then deliver j wr rest (emit [WriteJSON c j True] st)
      else deliver j wr rest
             (call_cancel cancel
                (emit [WriteJSON c j False, LogError ''failed to send message to client''] st)))"

definition notifyClients :: "Message \<Rightarrow> (conn \<Rightarrow> bool) \<Rightarrow> system \<Rightarrow> system" where
  "notifyClients msg wr st =
     (case map_of (subscribers st) (RoomID msg) of
        None \<Rightarrow> st
      | Some subs \<Rightarrow>
          if length subs = 0 then st
          else deliver (marshal_Message msg) wr subs st)"

section \<open>The process as a transition system\<close>

text \<open>
  Every access to the registry happens under the one mutex, so the process is a sequence
  of atomic steps: a subscription request runs up to its wait, the transport cancels a
  request's context (the client went away), a waiting session whose context is done runs
  its cleanup, or a \<^verbatim>\<open>notifyClients\<close> goroutine runs.
\<close>

datatype action =
    Subscribe sub_request
  | ClientDisconnect nat
  | Resume conn
  | Notify Message "conn \<Rightarrow> bool"

fun step :: "action \<Rightarrow> system \<Rightarrow> system" where
  "step (Subscribe rq) st = handleSubscribeToRoom_enter rq st"
| "step (ClientDisconnect n) st = st\<lparr>cancelled := insert (RequestCtx n) (cancelled st)\<rparr>"
| "step (Resume c) st = handleSubscribeToRoom_exit c st"
| "step (Notify msg wr) st = notifyClients msg wr st"

definition run :: "action list \<Rightarrow> system \<Rightarrow> system" where
  "run acts st = fold step acts st"

section \<open>\<^verbatim>\<open>handleCreateRoomMessage\<close>\<close>

text \<open>
  One request to \<^verbatim>\<open>POST /api/rooms/{room_id}/messages\<close>: the outcomes of parsing the room
  id, of \<^verbatim>\<open>h.q.GetRoom\<close>, of decoding the body (\<open>None\<close> for invalid JSON, otherwise the
  text of the field \<^verbatim>\<open>message\<close>), of \<^verbatim>\<open>h.q.InsertMessage\<close> (\<open>None\<close> for an error, otherwise
  the new id), of \<^verbatim>\<open>json.Marshal\<close> and of \<^verbatim>\<open>w.Write\<close>.
\<close>

record msg_request =
  cm_room_id :: "uuid option"
  cm_GetRoom :: "store_error option"
  cm_body :: "string option"
  cm_InsertMessage :: "uuid option"
  cm_Marshal :: bool
  cm_Write :: bool

text \<open>
  The handler's effects in order; the last statement, \<^verbatim>\<open>go h.notifyClients(Message{...})\<close>,
  is the event \<open>GoNotifyClients\<close>.
\<close>

definition handleCreateRoomMessage :: "msg_request \<Rightarrow> event list" where
  "handleCreateRoomMessage rq =
     (case cm_room_id rq of
        None \<Rightarrow> [HttpError ''invalid room id'' 400]
      | Some roomId \<Rightarrow>
          StoreGetRoom roomId #
          (case cm_GetRoom rq of
             Some ErrNoRows \<Rightarrow> [HttpError ''room not found'' 404]
           | Some ErrOther \<Rightarrow> [HttpError ''something went wrong'' 500]
           | None \<Rightarrow>
               (case cm_body rq of
                  None \<Rightarrow> [HttpError ''invalid json'' 400]
                | Some message \<Rightarrow>
                    StoreInsertMessage roomId message #
                    (case cm_InsertMessage rq of
                       None \<Rightarrow>
                         [LogWarn ''failed to insert message'',
                          HttpError ''something went wrong'' 500]
                     | Some messageID \<Rightarrow>
                         (if \<not> cm_Marshal rq then
                            [LogWarn ''failed to marshal response'',
                             HttpError ''something went wrong'' 500]
                          else
                            [SetHeader ''Content-Type'' ''application/json'',
                             WriteHeader 201,
                             Write (JObject [(''id'', JString (uuid_String messageID))])
                               (cm_Write rq)] @
                            (if \<not> cm_Write rq then
                               [LogWarn ''failed to write response'',
                                HttpError ''something went wrong'' 500]
                             else
                               [GoNotifyClients
                                  \<lparr>Kind = MessageKindMessageCreated,
                                   Value = AnyMessageCreated
                                     \<lparr>mc_ID = uuid_String messageID, mc_Message = message\<rparr>,
                                   RoomID = uuid_String roomId\<rparr>]))))))"

fun is_GoNotifyClients :: "event \<Rightarrow> bool" where
  "is_GoNotifyClients (GoNotifyClients msg) = True"
| "is_GoNotifyClients _ = False"

section \<open>\<^verbatim>\<open>handleRemoveReactionFromMessage\<close>\<close>




section \<open>Notions used in the statements\<close>

fun is_StoreGetRoom :: "event \<Rightarrow> bool" where
  "is_StoreGetRoom (StoreGetRoom u) = True"
| "is_StoreGetRoom _ = False"

fun is_Upgrade :: "event \<Rightarrow> bool" where
  "is_Upgrade (Upgrade ok) = True"
| "is_Upgrade _ = False"

fun is_Subscribed :: "event \<Rightarrow> bool" where
  "is_Subscribed (Subscribed r c f) = True"
| "is_Subscribed _ = False"

fun is_WriteJSON :: "event \<Rightarrow> bool" where
  "is_WriteJSON (WriteJSON c j ok) = True"
| "is_WriteJSON _ = False"

fun is_delivered :: "event \<Rightarrow> bool" where
  "is_delivered (WriteJSON c j ok) = ok"
| "is_delivered _ = False"

fun is_CancelCalled :: "event \<Rightarrow> bool" where
  "is_CancelCalled (CancelCalled f) = True"
| "is_CancelCalled _ = False"

fun cancel_ctx :: "cancel_func \<Rightarrow> ctx" where
  "cancel_ctx (CancelFunc cx) = cx"

text \<open>\<open>preceded p q xs\<close>: no element with \<open>q\<close> comes before the first element with \<open>p\<close>.\<close>

fun preceded :: "('a \<Rightarrow> bool) \<Rightarrow> ('a \<Rightarrow> bool) \<Rightarrow> 'a list \<Rightarrow> bool" where
  "preceded p q [] = True"
| "preceded p q (x # xs) = (if p x then True else \<not> q x \<and> preceded p q xs)"

text \<open>The events one call adds to the trace.\<close>

definition subscribe_events :: "sub_request \<Rightarrow> system \<Rightarrow> event list" where
  "subscribe_events rq st =
     drop (length (trace st)) (trace (handleSubscribeToRoom_enter rq st))"

definition notify_events :: "Message \<Rightarrow> (conn \<Rightarrow> bool) \<Rightarrow> system \<Rightarrow> event list" where
  "notify_events msg wr st = drop (length (trace st)) (trace (notifyClients msg wr st))"

text \<open>The events of the delivery loop, one group per entry of the room's map.\<close>

fun deliver_events :: "json \<Rightarrow> (conn \<Rightarrow> bool) \<Rightarrow> conns \<Rightarrow> event list" where
  "deliver_events j wr [] = []"
| "deliver_events j wr ((c, cancel) # rest) =
     (if wr c then [WriteJSON c j True]
      else [WriteJSON c j False, LogError ''failed to send message to client'',
            CancelCalled cancel]) @ deliver_events j wr rest"

subsection \<open>Sequences of registry operations, and what the specification says of them\<close>

text \<open>
  A subscription (lines 139 to 145, with the cancel function it stores) or an
  unsubscription (lines 150 to 154) of one connection in one room, and a sequence of them
  run in order; a panic would end the sequence.
\<close>

datatype reg_op = OpSubscribe cancel_func | OpUnsubscribe

fun apply_op :: "string \<Rightarrow> conn \<Rightarrow> reg_op \<Rightarrow> registry \<Rightarrow> panic + registry" where
  "apply_op room c (OpSubscribe cancel) subs = subscribe_locked subs room c cancel"
| "apply_op room c OpUnsubscribe subs = Inr (unsubscribe_locked subs room c)"

fun apply_ops :: "string \<Rightarrow> conn \<Rightarrow> reg_op list \<Rightarrow> registry \<Rightarrow> panic + registry" where
  "apply_ops room c [] subs = Inr subs"
| "apply_ops room c (op # ops) subs =
     (case apply_op room c op subs of
        Inl p \<Rightarrow> Inl p
      | Inr subs' \<Rightarrow> apply_ops room c ops subs')"

text \<open>
  The specification's SubscriptionSet: a mapping from room ids to mappings from
  connections to cancel handles, where Subscribe inserts the entry of a room and a
  connection and Unsubscribe removes it. \<open>entries\<close> reads the registry of the code as such
  a mapping; a room without a key has no entries.
\<close>

type_synonym SubscriptionSet = "string \<Rightarrow> (conn \<rightharpoonup> cancel_func)"

definition spec_Subscribe ::
  "SubscriptionSet \<Rightarrow> string \<Rightarrow> conn \<Rightarrow> cancel_func \<Rightarrow> SubscriptionSet" where
  "spec_Subscribe S room c h = S(room := (S room)(c \<mapsto> h))"

definition spec_Unsubscribe :: "SubscriptionSet \<Rightarrow> string \<Rightarrow> conn \<Rightarrow> SubscriptionSet" where
  "spec_Unsubscribe S room c = S(room := (S room)(c := None))"

fun spec_apply :: "string \<Rightarrow> conn \<Rightarrow> reg_op \<Rightarrow> SubscriptionSet \<Rightarrow> SubscriptionSet" where
  "spec_apply room c (OpSubscribe h) S = spec_Subscribe S room c h"
| "spec_apply room c OpUnsubscribe S = spec_Unsubscribe S room c"

definition entries :: "registry \<Rightarrow> SubscriptionSet" where
  "entries subs room = (case map_of subs room of None \<Rightarrow> Map.empty | Some m \<Rightarrow> map_of m)"

subsection \<open>Invariants of the reachable states\<close>

text \<open>
  Connections are allocated in order, a session waits on the child of its request's
  context, and only connections already allocated have been unsubscribed.
\<close>

definition sessions_fresh :: "system \<Rightarrow> bool" where
  "sessions_fresh st \<longleftrightarrow>
     (\<forall>c s. sessions st c = Some s \<longrightarrow>
        c < next_conn st \<and> (\<exists>p. s_ctx s = WithCancel (RequestCtx p) c))
     \<and> (\<forall>r c. Unsubscribed r c \<in> set (trace st) \<longrightarrow> c < next_conn st)"

text \<open>
  Every entry of the registry belongs to a session that is still waiting, in that room
  and with that cancel function; and every session's room has a key in the registry,
  under which a waiting session is entered.
\<close>

definition registry_sound :: "system \<Rightarrow> bool" where
  "registry_sound st \<longleftrightarrow>
     (\<forall>r m c f. map_of (subscribers st) r = Some m \<longrightarrow> (c, f) \<in> set m \<longrightarrow>
        sessions st c = Some \<lparr>s_room = r, s_ctx = cancel_ctx f, s_phase = Registered\<rparr>)"

definition registry_complete :: "system \<Rightarrow> bool" where
  "registry_complete st \<longleftrightarrow>
     (\<forall>c s. sessions st c = Some s \<longrightarrow>
        (\<exists>m. map_of (subscribers st) (s_room s) = Some m
           \<and> (s_phase s = Registered \<longrightarrow> map_of m c = Some (CancelFunc (s_ctx s)))))"

text \<open>The cleanup of a session has run once if the session is closed, and not at all otherwise.\<close>

definition unsubscribed_once :: "system \<Rightarrow> bool" where
  "unsubscribed_once st \<longleftrightarrow>
     (\<forall>c s. sessions st c = Some s \<longrightarrow>
        count_list (trace st) (Unsubscribed (s_room s) c) =
          (if s_phase s = Closed then 1 else 0))"

definition inv :: "system \<Rightarrow> bool" where
  "inv st \<longleftrightarrow> sessions_fresh st \<and> registry_sound st \<and> registry_complete st
     \<and> unsubscribed_once st"


subsection \<open>Example inputs\<close>

text \<open>
  A subscription request for room \<open>r1\<close> whose lookup and handshake succeed, made under the
  request context 7, and a message-created event for that room.
\<close>

abbreviation subscribe_r1 :: sub_request where
  "subscribe_r1 \<equiv>
     \<lparr>sr_room_id = Some (UUID ''r1''), sr_GetRoom = None, sr_Upgrade = True, sr_ctx = 7\<rparr>"

abbreviation message_r1 :: Message where
  "message_r1 \<equiv>
     \<lparr>Kind = ''message_created'',
      Value = AnyMessageCreated \<lparr>mc_ID = ''m1'', mc_Message = ''hi''\<rparr>, RoomID = ''r1''\<rparr>"

section \<open>Basic facts\<close>

lemma emit_fields:
  "subscribers (emit evs st) = subscribers st"
  "sessions (emit evs st) = sessions st"
  "cancelled (emit evs st) = cancelled st"
  "next_conn (emit evs st) = next_conn st"
  "trace (emit evs st) = trace st @ evs"
  by (simp_all add: emit_def)

lemma call_cancel_fields:
  "subscribers (call_cancel f st) = subscribers st"
  "sessions (call_cancel f st) = sessions st"
  "cancelled (call_cancel f st) = insert (cancel_ctx f) (cancelled st)"
  "next_conn (call_cancel f st) = next_conn st"
  "trace (call_cancel f st) = trace st @ [CancelCalled f]"
  by (cases f; simp add: emit_fields)+

lemma subscribe_locked_eq:
  "subscribe_locked subs room c cancel =
     Inr (AList.update room
            (AList.update c cancel (case map_of subs room of None \<Rightarrow> [] | Some m \<Rightarrow> m)) subs)"
  by (auto simp add: subscribe_locked_def Let_def AList.update_conv' split: option.splits)

lemma subscribe_events_eq:
  "subscribe_events rq st =
     (case sr_room_id rq of
        None \<Rightarrow> [HttpError ''invalid room id'' 400]
      | Some roomId \<Rightarrow>
          (case sr_GetRoom rq of
             Some ErrNoRows \<Rightarrow> [StoreGetRoom roomId, HttpError ''room not found'' 404]
           | Some ErrOther \<Rightarrow> [StoreGetRoom roomId, HttpError ''something went wrong'' 500]
           | None \<Rightarrow>
               (if \<not> sr_Upgrade rq then
                  [StoreGetRoom roomId, Upgrade False,
                   LogWarn ''failed to upgrade connection'',
                   HttpError ''failed to upgrade connection'' 400]
                else
                  [StoreGetRoom roomId, Upgrade True,
                   Subscribed (uuid_String roomId) (next_conn st)
                     (CancelFunc (WithCancel (RequestCtx (sr_ctx rq)) (next_conn st))),
                   LogInfo ''new subscriber connected''])))"
  by (auto simp add: subscribe_events_def handleSubscribeToRoom_enter_def emit_fields Let_def
      subscribe_locked_eq split: option.splits store_error.splits)

lemma subscribe_failure_state:
  assumes "sr_room_id rq = None \<or> sr_GetRoom rq \<noteq> None \<or> \<not> sr_Upgrade rq"
  shows "subscribers (handleSubscribeToRoom_enter rq st) = subscribers st"
    and "sessions (handleSubscribeToRoom_enter rq st) = sessions st"
    and "next_conn (handleSubscribeToRoom_enter rq st) = next_conn st"
    and "cancelled (handleSubscribeToRoom_enter rq st) = cancelled st"
  using assms
  by (auto simp add: handleSubscribeToRoom_enter_def emit_fields
      split: option.splits store_error.splits)

lemma deliver_fields:
  "subscribers (deliver j wr subs st) = subscribers st"
  "sessions (deliver j wr subs st) = sessions st"
  "next_conn (deliver j wr subs st) = next_conn st"
  by (induction subs arbitrary: st; auto simp add: emit_fields call_cancel_fields)+

lemma deliver_trace: "trace (deliver j wr subs st) = trace st @ deliver_events j wr subs"
  by (induction subs arbitrary: st) (auto simp add: emit_fields call_cancel_fields)

lemma deliver_cancelled:
  "cancelled (deliver j wr subs st) =
     cancelled st \<union> set (map (\<lambda>(c, f). cancel_ctx f) (filter (\<lambda>(c, f). \<not> wr c) subs))"
proof (induction subs arbitrary: st)
  case Nil
  show ?case by simp
next
  case (Cons a subs)
  obtain c f where a: "a = (c, f)" by (cases a)
  show ?case
  proof (cases "wr c")
    case True
    then show ?thesis using Cons [of "emit [WriteJSON c j True] st"]
      by (simp add: a emit_fields)
  next
    case False
    then show ?thesis
      using Cons [of "call_cancel f (emit [WriteJSON c j False,
          LogError ''failed to send message to client''] st)"]
      by (simp add: a emit_fields call_cancel_fields)
  qed
qed

lemma notify_events_eq:
  "notify_events msg wr st =
     (case map_of (subscribers st) (RoomID msg) of
        None \<Rightarrow> []
      | Some subs \<Rightarrow> deliver_events (marshal_Message msg) wr subs)"
  by (auto simp add: notify_events_def notifyClients_def deliver_trace split: option.splits)

lemma notify_fields:
  "subscribers (notifyClients msg wr st) = subscribers st"
  "sessions (notifyClients msg wr st) = sessions st"
  "next_conn (notifyClients msg wr st) = next_conn st"
  by (simp_all add: notifyClients_def deliver_fields split: option.splits)

lemma writes_deliver_events:
  "filter is_WriteJSON (deliver_events j wr subs) =
     map (\<lambda>(c, cancel). WriteJSON c j (wr c)) subs"
  by (induction subs) auto

lemma delivered_deliver_events:
  "filter is_delivered (deliver_events j wr subs) =
     map (\<lambda>(c, cancel). WriteJSON c j True) (filter (\<lambda>(c, cancel). wr c) subs)"
  by (induction subs) auto

lemma cancels_deliver_events:
  "filter is_CancelCalled (deliver_events j wr subs) =
     map (\<lambda>(c, cancel). CancelCalled cancel) (filter (\<lambda>(c, cancel). \<not> wr c) subs)"
  by (induction subs) auto

section \<open>The subscription handshake\<close>

text \<open>
  C1, as stated: the session would perform the websocket upgrade before it asks the
  Store for the room. The handler does the opposite. For a request with a valid room id,
  an existing room and a successful handshake, the Store lookup is the first event and
  the upgrade the second, so the lookup is not preceded by an upgrade.
\<close>

theorem subscribe_upgrade_first_counterexample:
  "subscribe_events
     \<lparr>sr_room_id = Some (UUID ''r1''), sr_GetRoom = None, sr_Upgrade = True, sr_ctx = 0\<rparr>
     NewHandler
   = [StoreGetRoom (UUID ''r1''), Upgrade True,
      Subscribed ''r1'' 0 (CancelFunc (WithCancel (RequestCtx 0) 0)),
      LogInfo ''new subscriber connected'']
   \<and> \<not> preceded is_Upgrade is_StoreGetRoom
         (subscribe_events
            \<lparr>sr_room_id = Some (UUID ''r1''), sr_GetRoom = None, sr_Upgrade = True,
             sr_ctx = 0\<rparr>
            NewHandler)"
  by (simp add: subscribe_events_eq NewHandler_def)

text \<open>
  C1, amended: for every request to \<^verbatim>\<open>GET /subscribe/{room_id}\<close> the order is Validating,
  Connecting, Registered. The Store lookup comes before any upgrade and the upgrade before
  any registration; when the lookup fails no upgrade is attempted; and when the room
  exists but the handshake fails, the client gets the client error 400 and nothing is
  registered: registry and sessions are unchanged.
\<close>

theorem subscribe_validates_then_upgrades:
  "preceded is_StoreGetRoom is_Upgrade (subscribe_events rq st)
   \<and> preceded is_Upgrade is_Subscribed (subscribe_events rq st)
   \<and> (sr_GetRoom rq \<noteq> None \<longrightarrow> \<not> list_ex is_Upgrade (subscribe_events rq st))
   \<and> (sr_room_id rq = Some u \<and> sr_GetRoom rq = None \<and> \<not> sr_Upgrade rq \<longrightarrow>
        subscribe_events rq st =
          [StoreGetRoom u, Upgrade False, LogWarn ''failed to upgrade connection'',
           HttpError ''failed to upgrade connection'' 400]
        \<and> subscribers (handleSubscribeToRoom_enter rq st) = subscribers st
        \<and> sessions (handleSubscribeToRoom_enter rq st) = sessions st)"
proof -
  have "preceded is_StoreGetRoom is_Upgrade (subscribe_events rq st)"
    by (simp add: subscribe_events_eq split: option.splits store_error.splits)
  moreover have "preceded is_Upgrade is_Subscribed (subscribe_events rq st)"
    by (simp add: subscribe_events_eq split: option.splits store_error.splits)
  moreover have "sr_GetRoom rq \<noteq> None \<longrightarrow> \<not> list_ex is_Upgrade (subscribe_events rq st)"
    by (auto simp add: subscribe_events_eq split: option.splits store_error.splits)
  moreover have "sr_room_id rq = Some u \<and> sr_GetRoom rq = None \<and> \<not> sr_Upgrade rq \<longrightarrow>
        subscribe_events rq st =
          [StoreGetRoom u, Upgrade False, LogWarn ''failed to upgrade connection'',
           HttpError ''failed to upgrade connection'' 400]
        \<and> subscribers (handleSubscribeToRoom_enter rq st) = subscribers st
        \<and> sessions (handleSubscribeToRoom_enter rq st) = sessions st"
    by (simp add: subscribe_events_eq subscribe_failure_state)
  ultimately show ?thesis by blast
qed

theorem subscribe_validates_then_upgrades_witness:
  "\<not> list_ex is_Upgrade
       (subscribe_events
          \<lparr>sr_room_id = Some (UUID ''r1''), sr_GetRoom = Some ErrNoRows, sr_Upgrade = True,
           sr_ctx = 0\<rparr> NewHandler)
   \<and> subscribe_events
       \<lparr>sr_room_id = Some (UUID ''r1''), sr_GetRoom = None, sr_Upgrade = False, sr_ctx = 0\<rparr>
       NewHandler
     = [StoreGetRoom (UUID ''r1''), Upgrade False, LogWarn ''failed to upgrade connection'',
        HttpError ''failed to upgrade connection'' 400]
   \<and> subscribers (handleSubscribeToRoom_enter
       \<lparr>sr_room_id = Some (UUID ''r1''), sr_GetRoom = None, sr_Upgrade = False, sr_ctx = 0\<rparr>
       NewHandler) = []"
  using subscribe_validates_then_upgrades
      [of "\<lparr>sr_room_id = Some (UUID ''r1''), sr_GetRoom = Some ErrNoRows, sr_Upgrade = True,
            sr_ctx = 0\<rparr>" NewHandler "UUID ''r1''"]
    subscribe_validates_then_upgrades
      [of "\<lparr>sr_room_id = Some (UUID ''r1''), sr_GetRoom = None, sr_Upgrade = False,
            sr_ctx = 0\<rparr>" NewHandler "UUID ''r1''"]
  by (simp add: NewHandler_def)

text \<open>
  C7: for a subscription request whose room id parses, a Store lookup that reports the
  room absent is answered with 404 "room not found", and a lookup that fails otherwise
  with 500 "something went wrong"; in both cases the handler returns without attempting
  the upgrade and without registering: registry and sessions are unchanged.
\<close>

theorem subscribe_store_failure:
  assumes "sr_room_id rq = Some u"
  shows "(sr_GetRoom rq = Some ErrNoRows \<longrightarrow>
            subscribe_events rq st = [StoreGetRoom u, HttpError ''room not found'' 404]
            \<and> subscribers (handleSubscribeToRoom_enter rq st) = subscribers st
            \<and> sessions (handleSubscribeToRoom_enter rq st) = sessions st)
       \<and> (sr_GetRoom rq = Some ErrOther \<longrightarrow>
            subscribe_events rq st = [StoreGetRoom u, HttpError ''something went wrong'' 500]
            \<and> subscribers (handleSubscribeToRoom_enter rq st) = subscribers st
            \<and> sessions (handleSubscribeToRoom_enter rq st) = sessions st)"
  using assms by (simp add: subscribe_events_eq subscribe_failure_state)

theorem subscribe_store_failure_witness:
  "subscribe_events
     \<lparr>sr_room_id = Some (UUID ''r9''), sr_GetRoom = Some ErrNoRows, sr_Upgrade = True,
      sr_ctx = 3\<rparr> NewHandler
   = [StoreGetRoom (UUID ''r9''), HttpError ''room not found'' 404]
   \<and> sessions (handleSubscribeToRoom_enter
       \<lparr>sr_room_id = Some (UUID ''r9''), sr_GetRoom = Some ErrNoRows, sr_Upgrade = True,
        sr_ctx = 3\<rparr> NewHandler) = Map.empty
   \<and> subscribe_events
     \<lparr>sr_room_id = Some (UUID ''r9''), sr_GetRoom = Some ErrOther, sr_Upgrade = True,
      sr_ctx = 3\<rparr> NewHandler
   = [StoreGetRoom (UUID ''r9''), HttpError ''something went wrong'' 500]
   \<and> subscribers (handleSubscribeToRoom_enter
       \<lparr>sr_room_id = Some (UUID ''r9''), sr_GetRoom = Some ErrOther, sr_Upgrade = True,
        sr_ctx = 3\<rparr> NewHandler) = []"
  using subscribe_store_failure
      [of "\<lparr>sr_room_id = Some (UUID ''r9''), sr_GetRoom = Some ErrNoRows, sr_Upgrade = True,
            sr_ctx = 3\<rparr>" "UUID ''r9''" NewHandler]
    subscribe_store_failure
      [of "\<lparr>sr_room_id = Some (UUID ''r9''), sr_GetRoom = Some ErrOther, sr_Upgrade = True,
            sr_ctx = 3\<rparr>" "UUID ''r9''" NewHandler]
  by (simp add: NewHandler_def)

section \<open>Publishing from \<^verbatim>\<open>handleCreateRoomMessage\<close>\<close>

text \<open>
  C2, as stated: whenever the insert succeeds the event would be published exactly once,
  even if encoding or writing the response fails. In the handler the \<^verbatim>\<open>go\<close> statement is
  the last one, after the early returns of the response path: for a request whose insert
  succeeds and whose \<^verbatim>\<open>w.Write\<close> fails, nothing is published.
\<close>

theorem create_message_publish_counterexample:
  "cm_InsertMessage
     \<lparr>cm_room_id = Some (UUID ''r1''), cm_GetRoom = None, cm_body = Some ''hi'',
      cm_InsertMessage = Some (UUID ''m1''), cm_Marshal = True, cm_Write = False\<rparr>
   = Some (UUID ''m1'')
   \<and> handleCreateRoomMessage
     \<lparr>cm_room_id = Some (UUID ''r1''), cm_GetRoom = None, cm_body = Some ''hi'',
      cm_InsertMessage = Some (UUID ''m1''), cm_Marshal = True, cm_Write = False\<rparr>
   = [StoreGetRoom (UUID ''r1''), StoreInsertMessage (UUID ''r1'') ''hi'',
      SetHeader ''Content-Type'' ''application/json'', WriteHeader 201,
      Write (JObject [(''id'', JString ''m1'')]) False,
      LogWarn ''failed to write response'', HttpError ''something went wrong'' 500]
   \<and> length (filter is_GoNotifyClients (handleCreateRoomMessage
     \<lparr>cm_room_id = Some (UUID ''r1''), cm_GetRoom = None, cm_body = Some ''hi'',
      cm_InsertMessage = Some (UUID ''m1''), cm_Marshal = True, cm_Write = False\<rparr>)) \<noteq> 1"
  by (simp add: handleCreateRoomMessage_def)

text \<open>
  C2, amended: a create-message request publishes at most once. When the insert succeeds
  and the response is encoded and written without error, the handler first writes the
  201 response and then, as its last effect, starts \<^verbatim>\<open>notifyClients\<close> exactly once with the
  kind \<^verbatim>\<open>message_created\<close>, the new message's id and text and the room's id. When encoding
  or writing the response fails, or the insert fails, nothing is published.
\<close>

theorem create_message_publishes_after_response:
  "length (filter is_GoNotifyClients (handleCreateRoomMessage rq)) \<le> 1
   \<and> (cm_room_id rq = Some roomId \<and> cm_GetRoom rq = None \<and> cm_body rq = Some message
        \<and> cm_InsertMessage rq = Some messageID \<and> cm_Marshal rq \<and> cm_Write rq \<longrightarrow>
        handleCreateRoomMessage rq =
          [StoreGetRoom roomId, StoreInsertMessage roomId message,
           SetHeader ''Content-Type'' ''application/json'', WriteHeader 201,
           Write (JObject [(''id'', JString (uuid_String messageID))]) True,
           GoNotifyClients
             \<lparr>Kind = ''message_created'',
              Value = AnyMessageCreated
                \<lparr>mc_ID = uuid_String messageID, mc_Message = message\<rparr>,
              RoomID = uuid_String roomId\<rparr>])
   \<and> (\<not> (cm_Marshal rq \<and> cm_Write rq) \<or> cm_InsertMessage rq = None \<longrightarrow>
        filter is_GoNotifyClients (handleCreateRoomMessage rq) = [])"
proof -
  have "length (filter is_GoNotifyClients (handleCreateRoomMessage rq)) \<le> 1"
    by (simp add: handleCreateRoomMessage_def split: option.splits store_error.splits)
  moreover have "cm_room_id rq = Some roomId \<and> cm_GetRoom rq = None \<and> cm_body rq = Some message
        \<and> cm_InsertMessage rq = Some messageID \<and> cm_Marshal rq \<and> cm_Write rq \<longrightarrow>
        handleCreateRoomMessage rq =
          [StoreGetRoom roomId, StoreInsertMessage roomId message,
           SetHeader ''Content-Type'' ''application/json'', WriteHeader 201,
           Write (JObject [(''id'', JString (uuid_String messageID))]) True,
           GoNotifyClients
             \<lparr>Kind = ''message_created'',
              Value = AnyMessageCreated
                \<lparr>mc_ID = uuid_String messageID, mc_Message = message\<rparr>,
              RoomID = uuid_String roomId\<rparr>]"
    by (simp add: handleCreateRoomMessage_def MessageKindMessageCreated_def)
  moreover have "\<not> (cm_Marshal rq \<and> cm_Write rq) \<or> cm_InsertMessage rq = None \<longrightarrow>
        filter is_GoNotifyClients (handleCreateRoomMessage rq) = []"
    by (auto simp add: handleCreateRoomMessage_def split: option.splits store_error.splits)
  ultimately show ?thesis by blast
qed

theorem create_message_publishes_after_response_witness:
  "handleCreateRoomMessage
     \<lparr>cm_room_id = Some (UUID ''r1''), cm_GetRoom = None, cm_body = Some ''hi'',
      cm_InsertMessage = Some (UUID ''m1''), cm_Marshal = True, cm_Write = True\<rparr>
   = [StoreGetRoom (UUID ''r1''), StoreInsertMessage (UUID ''r1'') ''hi'',
      SetHeader ''Content-Type'' ''application/json'', WriteHeader 201,
      Write (JObject [(''id'', JString ''m1'')]) True,
      GoNotifyClients
        \<lparr>Kind = ''message_created'',
         Value = AnyMessageCreated \<lparr>mc_ID = ''m1'', mc_Message = ''hi''\<rparr>,
         RoomID = ''r1''\<rparr>]
   \<and> filter is_GoNotifyClients (handleCreateRoomMessage
     \<lparr>cm_room_id = Some (UUID ''r1''), cm_GetRoom = None, cm_body = Some ''hi'',
      cm_InsertMessage = Some (UUID ''m1''), cm_Marshal = False, cm_Write = True\<rparr>) = []"
  using create_message_publishes_after_response
      [of "\<lparr>cm_room_id = Some (UUID ''r1''), cm_GetRoom = None, cm_body = Some ''hi'',
            cm_InsertMessage = Some (UUID ''m1''), cm_Marshal = True, cm_Write = True\<rparr>"
          "UUID ''r1''" "''hi''" "UUID ''m1''"]
    create_message_publishes_after_response
      [of "\<lparr>cm_room_id = Some (UUID ''r1''), cm_GetRoom = None, cm_body = Some ''hi'',
            cm_InsertMessage = Some (UUID ''m1''), cm_Marshal = False, cm_Write = True\<rparr>"
          "UUID ''r1''" "''hi''" "UUID ''m1''"]
  by simp

section \<open>Fan-out by \<^verbatim>\<open>notifyClients\<close>\<close>

text \<open>
  C3: when \<^verbatim>\<open>handleCreateRoomMessage\<close> publishes a message-created event, \<^verbatim>\<open>notifyClients\<close>
  makes one write per connection held in the room's map at that time, and every such
  write carries the JSON object with the key \<^verbatim>\<open>kind\<close> bound to the string
  \<^verbatim>\<open>message_created\<close> and the key \<^verbatim>\<open>value\<close> bound to the object of \<^verbatim>\<open>id\<close> (the message's id)
  and \<^verbatim>\<open>message\<close> (its text), and nothing else: the room id is not among its keys.
\<close>

theorem notify_payload:
  assumes "GoNotifyClients msg \<in> set (handleCreateRoomMessage rq)"
    and "cm_body rq = Some message" and "cm_InsertMessage rq = Some messageID"
    and "map_of (subscribers st) (RoomID msg) = Some subs"
  shows "filter is_WriteJSON (notify_events msg wr st) =
           map (\<lambda>(c, cancel). WriteJSON c
             (JObject [(''kind'', JString ''message_created''),
                       (''value'', JObject [(''id'', JString (uuid_String messageID)),
                                            (''message'', JString message)])]) (wr c)) subs
       \<and> json_keys (marshal_Message msg) = [''kind'', ''value'']"
proof -
  have "marshal_Message msg = JObject [(''kind'', JString ''message_created''),
                       (''value'', JObject [(''id'', JString (uuid_String messageID)),
                                            (''message'', JString message)])]"
    using assms(1-3)
    by (auto simp add: handleCreateRoomMessage_def marshal_Message_def
        marshal_MessageMessageCreated_def MessageKindMessageCreated_def
        split: option.splits store_error.splits if_splits)
  then show ?thesis using assms(4) by (simp add: notify_events_eq writes_deliver_events)
qed

theorem notify_payload_witness:
  "GoNotifyClients \<lparr>Kind = ''message_created'',
         Value = AnyMessageCreated \<lparr>mc_ID = ''m1'', mc_Message = ''hi''\<rparr>, RoomID = ''r1''\<rparr>
     \<in> set (handleCreateRoomMessage
         \<lparr>cm_room_id = Some (UUID ''r1''), cm_GetRoom = None, cm_body = Some ''hi'',
          cm_InsertMessage = Some (UUID ''m1''), cm_Marshal = True, cm_Write = True\<rparr>)
   \<and> filter is_WriteJSON (notify_events
        \<lparr>Kind = ''message_created'',
         Value = AnyMessageCreated \<lparr>mc_ID = ''m1'', mc_Message = ''hi''\<rparr>, RoomID = ''r1''\<rparr>
        (\<lambda>c. True)
        \<lparr>subscribers = [(''r1'', [(0, CancelFunc (WithCancel (RequestCtx 0) 0))])],
         cancelled = {}, sessions = Map.empty, next_conn = 1, trace = []\<rparr>)
     = [WriteJSON 0
          (JObject [(''kind'', JString ''message_created''),
                    (''value'', JObject [(''id'', JString ''m1''),
                                         (''message'', JString ''hi'')])]) True]"
proof -
  have h: "GoNotifyClients \<lparr>Kind = ''message_created'',
         Value = AnyMessageCreated \<lparr>mc_ID = ''m1'', mc_Message = ''hi''\<rparr>, RoomID = ''r1''\<rparr>
     \<in> set (handleCreateRoomMessage
         \<lparr>cm_room_id = Some (UUID ''r1''), cm_GetRoom = None, cm_body = Some ''hi'',
          cm_InsertMessage = Some (UUID ''m1''), cm_Marshal = True, cm_Write = True\<rparr>)"
    by (simp add: handleCreateRoomMessage_def MessageKindMessageCreated_def)
  show ?thesis
    using h notify_payload [OF h, of "''hi''" "UUID ''m1''"
        "\<lparr>subscribers = [(''r1'', [(0, CancelFunc (WithCancel (RequestCtx 0) 0))])],
          cancelled = {}, sessions = Map.empty, next_conn = 1, trace = []\<rparr>"
        "[(0, CancelFunc (WithCancel (RequestCtx 0) 0))]" "\<lambda>c. True"]
    by simp
qed

text \<open>
  C4: in a broadcast to a room whose map holds N connections, exactly one of which fails
  on \<^verbatim>\<open>WriteJSON\<close>, the event is delivered to each of the other N - 1 connections, the
  cancel function of the failed connection is the only one called and is called once, and
  \<^verbatim>\<open>notifyClients\<close> completes leaving registry and sessions as they were: its only change
  to the state is that the failed connection's context is cancelled.
\<close>

theorem notify_one_failure:
  assumes "map_of (subscribers st) (RoomID msg) = Some subs"
    and "filter (\<lambda>(c, cancel). \<not> wr c) subs = [(c0, cancel0)]"
  shows "filter is_delivered (notify_events msg wr st) =
           map (\<lambda>(c, cancel). WriteJSON c (marshal_Message msg) True)
             (filter (\<lambda>(c, cancel). c \<noteq> c0) subs)
       \<and> length (filter is_delivered (notify_events msg wr st)) = length subs - 1
       \<and> filter is_CancelCalled (notify_events msg wr st) = [CancelCalled cancel0]
       \<and> subscribers (notifyClients msg wr st) = subscribers st
       \<and> sessions (notifyClients msg wr st) = sessions st
       \<and> cancelled (notifyClients msg wr st) = insert (cancel_ctx cancel0) (cancelled st)"
proof -
  let ?bad = "\<lambda>(c, cancel). \<not> wr (c::conn)"
  let ?good = "\<lambda>(c, cancel::cancel_func). wr (c::conn)"
  have ev: "notify_events msg wr st = deliver_events (marshal_Message msg) wr subs"
    using assms(1) by (simp add: notify_events_eq)
  have mem: "\<And>c f. (c, f) \<in> set subs \<Longrightarrow> \<not> wr c \<longleftrightarrow> (c, f) = (c0, cancel0)"
  proof -
    fix c f assume "(c, f) \<in> set subs"
    then have "(c, f) \<in> set (filter ?bad subs) \<longleftrightarrow> \<not> wr c" by simp
    then show "\<not> wr c \<longleftrightarrow> (c, f) = (c0, cancel0)" using assms(2) by simp
  qed
  have c0in: "(c0, cancel0) \<in> set subs \<and> \<not> wr c0"
  proof -
    have "(c0, cancel0) \<in> set (filter ?bad subs)" using assms(2) by simp
    then show ?thesis by simp
  qed
  have good: "filter ?good subs = filter (\<lambda>(c, cancel). c \<noteq> c0) subs"
    by (rule filter_cong) (use mem c0in in auto)
  have len: "length (filter ?good subs) = length subs - 1"
  proof -
    have "filter ?bad subs = filter (\<lambda>x. \<not> ?good x) subs"
      by (rule filter_cong) auto
    then have "length (filter ?good subs) + length (filter ?bad subs) = length subs"
      using sum_length_filter_compl [of ?good subs] by simp
    then show ?thesis using assms(2) by simp
  qed
  have canc: "cancelled (notifyClients msg wr st) = insert (cancel_ctx cancel0) (cancelled st)"
  proof -
    have "subs \<noteq> []" using c0in by auto
    then show ?thesis
      using assms by (simp add: notifyClients_def deliver_cancelled)
  qed
  show ?thesis
    using ev good len canc assms(2)
    by (simp add: delivered_deliver_events cancels_deliver_events notify_fields)
qed

theorem notify_one_failure_witness:
  "filter is_delivered (notify_events
      \<lparr>Kind = ''message_created'',
       Value = AnyMessageCreated \<lparr>mc_ID = ''m1'', mc_Message = ''hi''\<rparr>, RoomID = ''r1''\<rparr>
      (\<lambda>c. c \<noteq> 1)
      \<lparr>subscribers = [(''r1'', [(0, CancelFunc (WithCancel (RequestCtx 0) 0)),
                                 (1, CancelFunc (WithCancel (RequestCtx 1) 1)),
                                 (2, CancelFunc (WithCancel (RequestCtx 2) 2))])],
       cancelled = {}, sessions = Map.empty, next_conn = 3, trace = []\<rparr>)
   = [WriteJSON 0 (JObject [(''kind'', JString ''message_created''),
                    (''value'', JObject [(''id'', JString ''m1''),
                                         (''message'', JString ''hi'')])]) True,
      WriteJSON 2 (JObject [(''kind'', JString ''message_created''),
                    (''value'', JObject [(''id'', JString ''m1''),
                                         (''message'', JString ''hi'')])]) True]
   \<and> filter is_CancelCalled (notify_events
      \<lparr>Kind = ''message_created'',
       Value = AnyMessageCreated \<lparr>mc_ID = ''m1'', mc_Message = ''hi''\<rparr>, RoomID = ''r1''\<rparr>
      (\<lambda>c. c \<noteq> 1)
      \<lparr>subscribers = [(''r1'', [(0, CancelFunc (WithCancel (RequestCtx 0) 0)),
                                 (1, CancelFunc (WithCancel (RequestCtx 1) 1)),
                                 (2, CancelFunc (WithCancel (RequestCtx 2) 2))])],
       cancelled = {}, sessions = Map.empty, next_conn = 3, trace = []\<rparr>)
   = [CancelCalled (CancelFunc (WithCancel (RequestCtx 1) 1))]"
  using notify_one_failure
      [of "\<lparr>subscribers = [(''r1'', [(0, CancelFunc (WithCancel (RequestCtx 0) 0)),
                                 (1, CancelFunc (WithCancel (RequestCtx 1) 1)),
                                 (2, CancelFunc (WithCancel (RequestCtx 2) 2))])],
            cancelled = {}, sessions = Map.empty, next_conn = 3, trace = []\<rparr>"
          "\<lparr>Kind = ''message_created'',
            Value = AnyMessageCreated \<lparr>mc_ID = ''m1'', mc_Message = ''hi''\<rparr>,
            RoomID = ''r1''\<rparr>"
          "[(0, CancelFunc (WithCancel (RequestCtx 0) 0)),
            (1, CancelFunc (WithCancel (RequestCtx 1) 1)),
            (2, CancelFunc (WithCancel (RequestCtx 2) 2))]"
          "\<lambda>c. c \<noteq> 1" 1 "CancelFunc (WithCancel (RequestCtx 1) 1)"]
  by (simp add: marshal_Message_def marshal_MessageMessageCreated_def)

text \<open>
  C8: a broadcast to a room without subscribed connections, whether the room has no key
  in the registry or its map is empty, returns the state it was given: no write, no call
  of a cancel function, no change.
\<close>

theorem notify_no_subscribers:
  "map_of (subscribers st) (RoomID msg) = None \<or> map_of (subscribers st) (RoomID msg) = Some []
   \<Longrightarrow> notifyClients msg wr st = st \<and> notify_events msg wr st = []"
  by (auto simp add: notifyClients_def notify_events_def)

theorem notify_no_subscribers_witness:
  "notifyClients
      \<lparr>Kind = ''message_created'',
       Value = AnyMessageCreated \<lparr>mc_ID = ''m1'', mc_Message = ''hi''\<rparr>, RoomID = ''r1''\<rparr>
      (\<lambda>c. False)
      \<lparr>subscribers = [(''r1'', []), (''r2'', [(0, CancelFunc (WithCancel (RequestCtx 0) 0))])],
       cancelled = {}, sessions = Map.empty, next_conn = 1, trace = []\<rparr>
   = \<lparr>subscribers = [(''r1'', []), (''r2'', [(0, CancelFunc (WithCancel (RequestCtx 0) 0))])],
       cancelled = {}, sessions = Map.empty, next_conn = 1, trace = []\<rparr>
   \<and> notifyClients
      \<lparr>Kind = ''message_created'',
       Value = AnyMessageCreated \<lparr>mc_ID = ''m1'', mc_Message = ''hi''\<rparr>, RoomID = ''r3''\<rparr>
      (\<lambda>c. False)
      \<lparr>subscribers = [(''r1'', []), (''r2'', [(0, CancelFunc (WithCancel (RequestCtx 0) 0))])],
       cancelled = {}, sessions = Map.empty, next_conn = 1, trace = []\<rparr>
   = \<lparr>subscribers = [(''r1'', []), (''r2'', [(0, CancelFunc (WithCancel (RequestCtx 0) 0))])],
       cancelled = {}, sessions = Map.empty, next_conn = 1, trace = []\<rparr>"
  using notify_no_subscribers
      [of "\<lparr>subscribers = [(''r1'', []),
              (''r2'', [(0, CancelFunc (WithCancel (RequestCtx 0) 0))])],
            cancelled = {}, sessions = Map.empty, next_conn = 1, trace = []\<rparr>"
          "\<lparr>Kind = ''message_created'',
            Value = AnyMessageCreated \<lparr>mc_ID = ''m1'', mc_Message = ''hi''\<rparr>,
            RoomID = ''r1''\<rparr>" "\<lambda>c. False"]
    notify_no_subscribers
      [of "\<lparr>subscribers = [(''r1'', []),
              (''r2'', [(0, CancelFunc (WithCancel (RequestCtx 0) 0))])],
            cancelled = {}, sessions = Map.empty, next_conn = 1, trace = []\<rparr>"
          "\<lparr>Kind = ''message_created'',
            Value = AnyMessageCreated \<lparr>mc_ID = ''m1'', mc_Message = ''hi''\<rparr>,
            RoomID = ''r3''\<rparr>" "\<lambda>c. False"]
  by simp

section \<open>Removing a reaction\<close>




section \<open>The registry operations\<close>

lemma unsubscribe_locked_eq:
  "unsubscribe_locked subs room c =
     (case map_of subs room of None \<Rightarrow> subs | Some m \<Rightarrow> AList.update room (AList.delete c m) subs)"
  by (simp add: unsubscribe_locked_def split: option.splits)

lemma entries_subscribe:
  "subscribe_locked subs room c h = Inr subs' \<Longrightarrow>
     entries subs' = spec_Subscribe (entries subs) room c h"
  by (rule ext)
     (auto simp add: subscribe_locked_eq entries_def spec_Subscribe_def AList.update_conv'
       split: option.splits)

lemma entries_unsubscribe:
  "entries (unsubscribe_locked subs room c) = spec_Unsubscribe (entries subs) room c"
  by (rule ext)
     (auto simp add: unsubscribe_locked_eq entries_def spec_Unsubscribe_def AList.update_conv'
       AList.delete_conv' split: option.splits)

lemma apply_ops_refines:
  "\<exists>subs'. apply_ops room c ops subs = Inr subs'
     \<and> entries subs' = fold (spec_apply room c) ops (entries subs)"
proof (induction ops arbitrary: subs)
  case Nil
  show ?case by simp
next
  case (Cons op ops)
  show ?case
  proof (cases op)
    case (OpSubscribe h)
    obtain subs1 where s1: "subscribe_locked subs room c h = Inr subs1"
      by (simp add: subscribe_locked_eq)
    show ?thesis using Cons [of subs1] s1 entries_subscribe [OF s1]
      by (simp add: OpSubscribe)
  next
    case OpUnsubscribe
    show ?thesis using Cons [of "unsubscribe_locked subs room c"]
      by (simp add: OpUnsubscribe entries_unsubscribe)
  qed
qed

lemma unsubscribe_absent:
  "entries subs room c = None \<Longrightarrow> unsubscribe_locked subs room c = subs"
proof (cases "map_of subs room")
  case None
  then show ?thesis by (simp add: unsubscribe_locked_eq)
next
  case (Some m)
  assume "entries subs room c = None"
  then have "map_of m c = None" using Some by (simp add: entries_def)
  then have "c \<notin> fst ` set m" by (simp add: map_of_eq_None_iff)
  then have "AList.delete c m = m" by simp
  then show ?thesis using Some by (simp add: unsubscribe_locked_eq AList.update_triv)
qed


section \<open>Invariants of the process\<close>

lemma set_update_subset: "set (AList.update k v al) \<subseteq> insert (k, v) (set al)"
  by (induction al) auto

lemma set_delete_eq: "set (AList.delete k al) = {p \<in> set al. fst p \<noteq> k}"
  by (induction al) auto

lemma count_list_append_notin:
  "x \<notin> set evs \<Longrightarrow> count_list (xs @ evs) x = count_list xs x"
  by (induction xs) (simp_all add: count_list_0_iff)

lemma inv_NewHandler: "inv NewHandler"
  by (simp add: inv_def sessions_fresh_def registry_sound_def registry_complete_def
      unsubscribed_once_def NewHandler_def)

lemma inv_frame:
  assumes "inv st"
    and "subscribers st' = subscribers st" and "sessions st' = sessions st"
    and "next_conn st' = next_conn st" and "trace st' = trace st @ evs"
    and "\<And>r c. Unsubscribed r c \<notin> set evs"
  shows "inv st'"
proof -
  have "sessions_fresh st'"
    using assms by (auto simp add: inv_def sessions_fresh_def)
  moreover have "registry_sound st'"
    using assms(1-3) by (simp add: inv_def registry_sound_def)
  moreover have "registry_complete st'"
    using assms(1-3) by (simp add: inv_def registry_complete_def)
  moreover have "unsubscribed_once st'"
    using assms(1,3,5,6) by (simp add: inv_def unsubscribed_once_def count_list_append_notin)
  ultimately show ?thesis by (simp add: inv_def)
qed

lemma enter_trace:
  "trace (handleSubscribeToRoom_enter rq st) = trace st @ subscribe_events rq st"
  by (auto simp add: subscribe_events_def handleSubscribeToRoom_enter_def emit_fields Let_def
      subscribe_locked_eq split: option.splits store_error.splits)

lemma enter_register_fields:
  assumes "sr_room_id rq = Some u" and "sr_GetRoom rq = None" and "sr_Upgrade rq"
  shows "subscribers (handleSubscribeToRoom_enter rq st) =
           AList.update (uuid_String u)
             (AList.update (next_conn st)
                (CancelFunc (WithCancel (RequestCtx (sr_ctx rq)) (next_conn st)))
                (case map_of (subscribers st) (uuid_String u) of None \<Rightarrow> [] | Some m \<Rightarrow> m))
             (subscribers st)"
    and "sessions (handleSubscribeToRoom_enter rq st) =
           (sessions st)(next_conn st \<mapsto>
              \<lparr>s_room = uuid_String u,
               s_ctx = WithCancel (RequestCtx (sr_ctx rq)) (next_conn st),
               s_phase = Registered\<rparr>)"
    and "next_conn (handleSubscribeToRoom_enter rq st) = Suc (next_conn st)"
    and "cancelled (handleSubscribeToRoom_enter rq st) = cancelled st"
  using assms
  by (simp_all add: handleSubscribeToRoom_enter_def emit_fields Let_def subscribe_locked_eq)

lemma subscribe_events_no_Unsubscribed: "Unsubscribed r c \<notin> set (subscribe_events rq st)"
  by (simp add: subscribe_events_eq split: option.splits store_error.splits)


lemma inv_enter:
  assumes "inv st"
  shows "inv (handleSubscribeToRoom_enter rq st)"
proof (cases "sr_room_id rq = None \<or> sr_GetRoom rq \<noteq> None \<or> \<not> sr_Upgrade rq")
  case True
  show ?thesis
    by (rule inv_frame [OF assms subscribe_failure_state(1) [OF True]
          subscribe_failure_state(2) [OF True] subscribe_failure_state(3) [OF True]
          enter_trace subscribe_events_no_Unsubscribed])
next
  case False
  then obtain u where ok: "sr_room_id rq = Some u" "sr_GetRoom rq = None" "sr_Upgrade rq"
    by auto
  let ?st' = "handleSubscribeToRoom_enter rq st"
  let ?room = "uuid_String u"
  let ?c = "next_conn st"
  let ?cx = "WithCancel (RequestCtx (sr_ctx rq)) ?c"
  let ?m0 = "case map_of (subscribers st) ?room of None \<Rightarrow> [] | Some m \<Rightarrow> m"
  let ?new = "\<lparr>s_room = ?room, s_ctx = ?cx, s_phase = Registered\<rparr>"
  note f = enter_register_fields [OF ok, of st]
  have mo: "map_of (subscribers ?st') = (map_of (subscribers st))(?room \<mapsto> AList.update ?c (CancelFunc ?cx) ?m0)"
    by (simp add: f AList.update_conv')
  have fresh: "\<And>c s. sessions st c = Some s \<Longrightarrow> c < ?c"
    using assms by (auto simp add: inv_def sessions_fresh_def)
  have "sessions_fresh ?st'"
    using assms
    by (auto simp add: inv_def sessions_fresh_def f enter_trace subscribe_events_no_Unsubscribed
        less_Suc_eq)
  moreover have "registry_sound ?st'"
    unfolding registry_sound_def
  proof (intro allI impI)
    fix r m c g
    assume a: "map_of (subscribers ?st') r = Some m" and b: "(c, g) \<in> set m"
    have old: "\<And>m1. map_of (subscribers st) r = Some m1 \<Longrightarrow> (c, g) \<in> set m1 \<Longrightarrow>
        sessions ?st' c = Some \<lparr>s_room = r, s_ctx = cancel_ctx g, s_phase = Registered\<rparr>"
    proof -
      fix m1 assume "map_of (subscribers st) r = Some m1" "(c, g) \<in> set m1"
      then have s: "sessions st c = Some \<lparr>s_room = r, s_ctx = cancel_ctx g, s_phase = Registered\<rparr>"
        using assms by (simp add: inv_def registry_sound_def)
      then have "c \<noteq> ?c" using fresh by blast
      then show "sessions ?st' c = Some \<lparr>s_room = r, s_ctx = cancel_ctx g, s_phase = Registered\<rparr>"
        using s by (simp add: f)
    qed
    show "sessions ?st' c = Some \<lparr>s_room = r, s_ctx = cancel_ctx g, s_phase = Registered\<rparr>"
    proof (cases "r = ?room")
      case True
      then have m: "m = AList.update ?c (CancelFunc ?cx) ?m0" using a mo by simp
      then have "(c, g) = (?c, CancelFunc ?cx) \<or> (c, g) \<in> set ?m0"
        using b set_update_subset by fastforce
      then show ?thesis
      proof
        assume "(c, g) = (?c, CancelFunc ?cx)"
        then show ?thesis using True by (simp add: f)
      next
        assume in0: "(c, g) \<in> set ?m0"
        then have "map_of (subscribers st) r = Some ?m0"
          using True by (cases "map_of (subscribers st) ?room") auto
        then show ?thesis using old in0 by blast
      qed
    next
      case False
      then have "map_of (subscribers st) r = Some m" using a mo by simp
      then show ?thesis using old b by blast
    qed
  qed
  moreover have "registry_complete ?st'"
    unfolding registry_complete_def
  proof (intro allI impI)
    fix c s
    assume a: "sessions ?st' c = Some s"
    show "\<exists>m. map_of (subscribers ?st') (s_room s) = Some m
           \<and> (s_phase s = Registered \<longrightarrow> map_of m c = Some (CancelFunc (s_ctx s)))"
    proof (cases "c = ?c")
      case True
      then have "s = ?new" using a by (simp add: f)
      then show ?thesis using True by (simp add: mo AList.update_conv')
    next
      case False
      then have s: "sessions st c = Some s" using a by (simp add: f)
      then obtain m where m: "map_of (subscribers st) (s_room s) = Some m"
          "s_phase s = Registered \<longrightarrow> map_of m c = Some (CancelFunc (s_ctx s))"
        using assms by (auto simp add: inv_def registry_complete_def)
      show ?thesis
      proof (cases "s_room s = ?room")
        case True
        then show ?thesis using m False by (simp add: mo AList.update_conv')
      next
        case False
        then show ?thesis using m by (simp add: mo)
      qed
    qed
  qed
  moreover have "unsubscribed_once ?st'"
    unfolding unsubscribed_once_def
  proof (intro allI impI)
    fix c s
    assume a: "sessions ?st' c = Some s"
    have tr: "count_list (trace ?st') (Unsubscribed (s_room s) c)
        = count_list (trace st) (Unsubscribed (s_room s) c)"
      by (simp add: enter_trace count_list_append_notin subscribe_events_no_Unsubscribed)
    show "count_list (trace ?st') (Unsubscribed (s_room s) c) =
          (if s_phase s = Closed then 1 else 0)"
    proof (cases "c = ?c")
      case True
      then have s: "s = ?new" using a by (simp add: f)
      have "Unsubscribed (s_room s) c \<notin> set (trace st)"
        using assms True by (auto simp add: inv_def sessions_fresh_def)
      then show ?thesis using s tr by (simp add: count_list_0_iff)
    next
      case False
      then have "sessions st c = Some s" using a by (simp add: f)
      then show ?thesis using assms tr by (simp add: inv_def unsubscribed_once_def)
    qed
  qed
  ultimately show ?thesis by (simp add: inv_def)
qed


lemma exit_idle:
  assumes "sessions st c = None \<or> (\<exists>s. sessions st c = Some s \<and>
      \<not> (s_phase s = Registered \<and> ctx_done (cancelled st) (s_ctx s)))"
  shows "handleSubscribeToRoom_exit c st = st"
  using assms by (auto simp add: handleSubscribeToRoom_exit_def)

lemma exit_fields:
  assumes "sessions st c = Some s" and "s_phase s = Registered"
    and "ctx_done (cancelled st) (s_ctx s)"
  shows "subscribers (handleSubscribeToRoom_exit c st) =
           unsubscribe_locked (subscribers st) (s_room s) c"
    and "sessions (handleSubscribeToRoom_exit c st) = (sessions st)(c \<mapsto> s\<lparr>s_phase := Closed\<rparr>)"
    and "next_conn (handleSubscribeToRoom_exit c st) = next_conn st"
    and "cancelled (handleSubscribeToRoom_exit c st) = cancelled st"
    and "trace (handleSubscribeToRoom_exit c st) =
           trace st @ [Unsubscribed (s_room s) c, ConnClose c]"
  using assms by (simp_all add: handleSubscribeToRoom_exit_def emit_fields)

lemma inv_exit:
  assumes "inv st"
  shows "inv (handleSubscribeToRoom_exit c0 st)"
proof (cases "\<exists>s. sessions st c0 = Some s \<and> s_phase s = Registered
    \<and> ctx_done (cancelled st) (s_ctx s)")
  case False
  then have "handleSubscribeToRoom_exit c0 st = st"
    by (intro exit_idle) (cases "sessions st c0"; auto)
  then show ?thesis using assms by simp
next
  case True
  then obtain s0 where s0: "sessions st c0 = Some s0" "s_phase s0 = Registered"
      "ctx_done (cancelled st) (s_ctx s0)"
    by blast
  let ?st' = "handleSubscribeToRoom_exit c0 st"
  note f = exit_fields [OF s0]
  obtain m0 where m0: "map_of (subscribers st) (s_room s0) = Some m0"
    using assms s0(1) by (auto simp add: inv_def registry_complete_def)
  have mo: "map_of (subscribers ?st') =
      (map_of (subscribers st))(s_room s0 \<mapsto> AList.delete c0 m0)"
    using m0 by (simp add: f unsubscribe_locked_eq AList.update_conv')
  have "sessions_fresh ?st'"
    using assms s0(1)
    by (auto simp add: inv_def sessions_fresh_def f split: if_splits)
  moreover have "registry_sound ?st'"
    unfolding registry_sound_def
  proof (intro allI impI)
    fix r m c g
    assume a: "map_of (subscribers ?st') r = Some m" and b: "(c, g) \<in> set m"
    have "\<exists>m1. map_of (subscribers st) r = Some m1 \<and> (c, g) \<in> set m1
        \<and> (r = s_room s0 \<longrightarrow> c \<noteq> c0)"
    proof (cases "r = s_room s0")
      case True
      then have "m = AList.delete c0 m0" using a mo by simp
      then have "(c, g) \<in> set m0 \<and> c \<noteq> c0" using b by (auto simp add: set_delete_eq)
      then show ?thesis using True m0 by simp
    next
      case False
      then show ?thesis using a b mo by simp
    qed
    then obtain m1 where m1: "map_of (subscribers st) r = Some m1" "(c, g) \<in> set m1"
        "r = s_room s0 \<longrightarrow> c \<noteq> c0"
      by blast
    then have s: "sessions st c =
        Some \<lparr>s_room = r, s_ctx = cancel_ctx g, s_phase = Registered\<rparr>"
      using assms by (simp add: inv_def registry_sound_def)
    have "c \<noteq> c0"
    proof
      assume "c = c0"
      then have "s_room s0 = r" using s s0(1) by auto
      then show False using m1(3) \<open>c = c0\<close> by simp
    qed
    then show "sessions ?st' c =
        Some \<lparr>s_room = r, s_ctx = cancel_ctx g, s_phase = Registered\<rparr>"
      using s by (simp add: f)
  qed
  moreover have "registry_complete ?st'"
    unfolding registry_complete_def
  proof (intro allI impI)
    fix c s
    assume a: "sessions ?st' c = Some s"
    show "\<exists>m. map_of (subscribers ?st') (s_room s) = Some m
           \<and> (s_phase s = Registered \<longrightarrow> map_of m c = Some (CancelFunc (s_ctx s)))"
    proof (cases "c = c0")
      case True
      then have "s = s0\<lparr>s_phase := Closed\<rparr>" using a by (simp add: f)
      then show ?thesis by (simp add: mo)
    next
      case False
      then have s: "sessions st c = Some s" using a by (simp add: f)
      then obtain m where m: "map_of (subscribers st) (s_room s) = Some m"
          "s_phase s = Registered \<longrightarrow> map_of m c = Some (CancelFunc (s_ctx s))"
        using assms by (auto simp add: inv_def registry_complete_def)
      show ?thesis
      proof (cases "s_room s = s_room s0")
        case True
        then have "m = m0" using m(1) m0 by simp
        then show ?thesis using m(2) True False by (simp add: mo)
      next
        case False
        then show ?thesis using m by (simp add: mo)
      qed
    qed
  qed
  moreover have "unsubscribed_once ?st'"
    unfolding unsubscribed_once_def
  proof (intro allI impI)
    fix c s
    assume a: "sessions ?st' c = Some s"
    show "count_list (trace ?st') (Unsubscribed (s_room s) c) =
          (if s_phase s = Closed then 1 else 0)"
    proof (cases "c = c0")
      case True
      then have s: "s = s0\<lparr>s_phase := Closed\<rparr>" using a by (simp add: f)
      have "count_list (trace st) (Unsubscribed (s_room s0) c0) = 0"
        using assms s0(1,2) by (auto simp add: inv_def unsubscribed_once_def)
      then show ?thesis using s True by (simp add: f)
    next
      case False
      then have "sessions st c = Some s" using a by (simp add: f)
      then show ?thesis using assms False by (simp add: inv_def unsubscribed_once_def f)
    qed
  qed
  ultimately show ?thesis by (simp add: inv_def)
qed

lemma deliver_events_no_Unsubscribed: "Unsubscribed r c \<notin> set (deliver_events j wr subs)"
  by (induction subs) (auto split: if_splits)

lemma notify_trace: "trace (notifyClients msg wr st) = trace st @ notify_events msg wr st"
  by (simp add: notify_events_def notifyClients_def deliver_trace split: option.splits)

lemma notify_events_no_Unsubscribed: "Unsubscribed r c \<notin> set (notify_events msg wr st)"
  by (simp add: notify_events_eq deliver_events_no_Unsubscribed split: option.splits)

lemma inv_notify:
  assumes "inv st"
  shows "inv (notifyClients msg wr st)"
  by (rule inv_frame [OF assms notify_fields notify_trace notify_events_no_Unsubscribed])

lemma inv_step:
  assumes "inv st"
  shows "inv (step a st)"
proof (cases a)
  case (Subscribe rq)
  then show ?thesis using inv_enter [OF assms] by simp
next
  case (ClientDisconnect n)
  have "inv (st\<lparr>cancelled := insert (RequestCtx n) (cancelled st)\<rparr>)"
    by (rule inv_frame [OF assms, where evs = "[]"]) simp_all
  then show ?thesis using ClientDisconnect by simp
next
  case (Resume c)
  then show ?thesis using inv_exit [OF assms] by simp
next
  case (Notify msg wr)
  then show ?thesis using inv_notify [OF assms] by simp
qed

lemma run_Nil: "run [] st = st"
  by (simp add: run_def)

lemma run_Cons: "run (a # acts) st = run acts (step a st)"
  by (simp add: run_def)


lemma inv_run:
  assumes "inv st"
  shows "inv (run acts st)"
  using assms by (induction acts arbitrary: st) (simp_all add: run_Nil run_Cons inv_step)

lemma inv_reachable: "inv (run acts NewHandler)"
  by (rule inv_run [OF inv_NewHandler])

lemma update_keeps_key: "map_of al r \<noteq> None \<Longrightarrow> map_of (AList.update k v al) r \<noteq> None"
  by (simp add: AList.update_conv')

lemma step_keeps_keys:
  assumes "map_of (subscribers st) r \<noteq> None"
  shows "map_of (subscribers (step a st)) r \<noteq> None"
proof (cases a)
  case (Subscribe rq)
  show ?thesis
  proof (cases "sr_room_id rq = None \<or> sr_GetRoom rq \<noteq> None \<or> \<not> sr_Upgrade rq")
    case True
    then show ?thesis using assms Subscribe by (simp add: subscribe_failure_state)
  next
    case False
    then obtain u where ok: "sr_room_id rq = Some u" "sr_GetRoom rq = None" "sr_Upgrade rq"
      by auto
    show ?thesis using assms Subscribe
      by (simp add: enter_register_fields [OF ok] AList.update_conv')
  qed
next
  case (ClientDisconnect n)
  then show ?thesis using assms by simp
next
  case (Resume c)
  then show ?thesis using assms
    by (auto simp add: handleSubscribeToRoom_exit_def emit_fields unsubscribe_locked_eq
        AList.update_conv' split: option.splits)
next
  case (Notify msg wr)
  then show ?thesis using assms by (simp add: notify_fields)
qed

lemma run_keeps_keys:
  "map_of (subscribers st) r \<noteq> None \<Longrightarrow> map_of (subscribers (run acts st)) r \<noteq> None"
proof (induction acts arbitrary: st)
  case Nil
  then show ?case by (simp add: run_Nil)
next
  case (Cons a acts)
  have "map_of (subscribers (step a st)) r \<noteq> None"
    by (rule step_keeps_keys [OF Cons.prems])
  then have "map_of (subscribers (run acts (step a st))) r \<noteq> None"
    by (rule Cons.IH)
  then show ?case by (simp add: run_Cons)
qed

lemma unsubscribe_keys:
  "map fst (unsubscribe_locked subs room c) = map fst subs"
proof (cases "map_of subs room")
  case None
  then show ?thesis by (simp add: unsubscribe_locked_eq)
next
  case (Some m)
  then have "room \<in> fst ` set subs" by (metis map_of_eq_None_iff option.distinct(1))
  then show ?thesis using Some by (simp add: unsubscribe_locked_eq AList.update_keys)
qed










lemmas eval_defs = run_def NewHandler_def handleSubscribeToRoom_enter_def
  handleSubscribeToRoom_exit_def notifyClients_def emit_def subscribe_locked_def
  unsubscribe_locked_def Let_def marshal_Message_def marshal_MessageMessageCreated_def

section \<open>Subscribe and Unsubscribe as operations on the SubscriptionSet\<close>

text \<open>
  C6: from any registry, a sequence of subscriptions and unsubscriptions of one connection
  in one room runs without a panic, and the entries of the registry it ends in are those
  the specification's operations give when applied in the same order to the entries of
  the registry it started from (Subscribe inserts the entry, Unsubscribe removes it).
  Unsubscribing an entry that is absent, and in particular in a room that has no key,
  returns the registry unchanged.
\<close>

theorem registry_refines_subscription_set:
  "(\<exists>subs'. apply_ops room c ops subs = Inr subs'
       \<and> entries subs' = fold (spec_apply room c) ops (entries subs))
   \<and> (entries subs room c = None \<longrightarrow> unsubscribe_locked subs room c = subs)
   \<and> (map_of subs room = None \<longrightarrow> unsubscribe_locked subs room c = subs)"
  using apply_ops_refines unsubscribe_absent
  by (simp add: unsubscribe_locked_eq)

theorem registry_refines_subscription_set_witness:
  "entries [(''r2'', [])] ''r1'' 0 = None
   \<and> map_of [(''r2'', [] :: conns)] ''r1'' = None
   \<and> unsubscribe_locked [(''r2'', [])] ''r1'' 0 = [(''r2'', [])]
   \<and> apply_ops ''r1'' 0
        [OpSubscribe (CancelFunc (RequestCtx 1)), OpUnsubscribe, OpUnsubscribe,
         OpSubscribe (CancelFunc (RequestCtx 2))] [(''r2'', [])]
      = Inr [(''r2'', []), (''r1'', [(0, CancelFunc (RequestCtx 2))])]
   \<and> entries [(''r2'', []), (''r1'', [(0, CancelFunc (RequestCtx 2))])]
      = fold (spec_apply ''r1'' 0)
          [OpSubscribe (CancelFunc (RequestCtx 1)), OpUnsubscribe, OpUnsubscribe,
           OpSubscribe (CancelFunc (RequestCtx 2))] (entries [(''r2'', [])])"
  using registry_refines_subscription_set
      [of "''r1''" 0
          "[OpSubscribe (CancelFunc (RequestCtx 1)), OpUnsubscribe, OpUnsubscribe,
            OpSubscribe (CancelFunc (RequestCtx 2))]" "[(''r2'', [])]"]
  by (simp add: subscribe_locked_def unsubscribe_locked_def entries_def)

section \<open>The room key stays\<close>

text \<open>
  C9: once a connection has subscribed to a room in a run of the process, the registry
  has a key for that room after every continuation of the run. The cleanup of a session
  replaces the room's map by the same map without the connection and leaves the keys of
  the registry as they were, so the last session to leave a room leaves an empty map
  behind; and a broadcast to a room whose map is empty returns the state unchanged.
\<close>

theorem room_key_retained:
  "(sessions (run acts NewHandler) c = Some s \<longrightarrow>
      (\<exists>m. map_of (subscribers (run acts' (run acts NewHandler))) (s_room s) = Some m))
   \<and> (map_of subs room = Some m \<longrightarrow>
        map_of (unsubscribe_locked subs room c) = (map_of subs)(room \<mapsto> AList.delete c m)
        \<and> map fst (unsubscribe_locked subs room c) = map fst subs)
   \<and> (map_of (subscribers st) (RoomID msg) = Some [] \<longrightarrow> notifyClients msg wr st = st)"
proof -
  have "sessions (run acts NewHandler) c = Some s \<longrightarrow>
      (\<exists>m. map_of (subscribers (run acts' (run acts NewHandler))) (s_room s) = Some m)"
  proof
    assume "sessions (run acts NewHandler) c = Some s"
    then have "map_of (subscribers (run acts NewHandler)) (s_room s) \<noteq> None"
      using inv_reachable [of acts] by (auto simp add: inv_def registry_complete_def)
    then have "map_of (subscribers (run acts' (run acts NewHandler))) (s_room s) \<noteq> None"
      by (rule run_keeps_keys)
    then show "\<exists>m. map_of (subscribers (run acts' (run acts NewHandler))) (s_room s) = Some m"
      by auto
  qed
  moreover have "map_of subs room = Some m \<longrightarrow>
        map_of (unsubscribe_locked subs room c) = (map_of subs)(room \<mapsto> AList.delete c m)
        \<and> map fst (unsubscribe_locked subs room c) = map fst subs"
    by (simp add: unsubscribe_keys) (simp add: unsubscribe_locked_eq AList.update_conv')
  moreover have "map_of (subscribers st) (RoomID msg) = Some [] \<longrightarrow> notifyClients msg wr st = st"
    by (simp add: notifyClients_def)
  ultimately show ?thesis by blast
qed

theorem room_key_retained_witness:
  "sessions (run [Subscribe subscribe_r1, ClientDisconnect 7, Resume 0] NewHandler) 0
     = Some \<lparr>s_room = ''r1'', s_ctx = WithCancel (RequestCtx 7) 0, s_phase = Closed\<rparr>
   \<and> (\<exists>m. map_of (subscribers (run [Notify message_r1 (\<lambda>c. True)]
          (run [Subscribe subscribe_r1, ClientDisconnect 7, Resume 0] NewHandler))) ''r1'' = Some m)
   \<and> subscribers (run [Subscribe subscribe_r1, ClientDisconnect 7, Resume 0] NewHandler)
     = [(''r1'', [])]
   \<and> map_of (unsubscribe_locked
        [(''r1'', [(0, CancelFunc (WithCancel (RequestCtx 7) 0))])] ''r1'' 0) ''r1'' = Some []
   \<and> notifyClients message_r1 (\<lambda>c. False)
        (run [Subscribe subscribe_r1, ClientDisconnect 7, Resume 0] NewHandler)
     = run [Subscribe subscribe_r1, ClientDisconnect 7, Resume 0] NewHandler"
proof -
  have h: "sessions (run [Subscribe subscribe_r1, ClientDisconnect 7, Resume 0] NewHandler) 0
     = Some \<lparr>s_room = ''r1'', s_ctx = WithCancel (RequestCtx 7) 0, s_phase = Closed\<rparr>"
    by (simp add: eval_defs)
  have e: "subscribers (run [Subscribe subscribe_r1, ClientDisconnect 7, Resume 0] NewHandler)
     = [(''r1'', [])]"
    by (simp add: eval_defs)
  show ?thesis
    using h e room_key_retained
      [where acts = "[Subscribe subscribe_r1, ClientDisconnect 7, Resume 0]" and c = 0
         and s = "\<lparr>s_room = ''r1'', s_ctx = WithCancel (RequestCtx 7) 0, s_phase = Closed\<rparr>"
         and acts' = "[Notify message_r1 (\<lambda>c. True)]"
         and subs = "[(''r1'', [(0, CancelFunc (WithCancel (RequestCtx 7) 0))])]"
         and room = "''r1''" and m = "[(0, CancelFunc (WithCancel (RequestCtx 7) 0))]"
         and st = "run [Subscribe subscribe_r1, ClientDisconnect 7, Resume 0] NewHandler"
         and msg = "message_r1" and wr = "\<lambda>c. False"]
    by simp
qed

section \<open>The life of a subscription session\<close>



end
